theory Spec2Isabelle
  imports Main
begin

section \<open>JavaScript values and the JSON built-ins\<close>

text \<open>
  A JavaScript string is a list of code units.  The type \<open>'c\<close> of code units is left
  open (16-bit in the language), and so is the type \<open>'n\<close> of numbers (IEEE doubles in the
  language): nothing in \<^verbatim>\<open>src/index.js\<close> looks inside a character or a number.  The
  examples take \<open>char\<close> and \<open>int\<close>.  \<open>json\<close> holds the values that \<^verbatim>\<open>JSON.parse\<close> can
  return; an object is the list of its members in enumeration order.  \<^verbatim>\<open>undefined\<close> is
  not among them; where the source distinguishes it (the handler's return value in
  \<^verbatim>\<open>getOrSet\<close>) it is \<open>None\<close> of \<open>json option\<close>.
\<close>

type_synonym 'c jsstring = "'c list"

datatype ('c, 'n) json =
    JNull
  | JBool bool
  | JNum 'n
  | JStr "'c jsstring"
  | JArr "('c, 'n) json list"
  | JObj "('c jsstring \<times> ('c, 'n) json) list"

text \<open>
  \<^verbatim>\<open>src/index.js\<close> stores every value as a string: \<^verbatim>\<open>setData\<close> and \<^verbatim>\<open>publish\<close> pass
  strings through and call \<^verbatim>\<open>JSON.stringify\<close> on anything else, \<^verbatim>\<open>getData\<close> calls
  \<^verbatim>\<open>JSON.parse\<close> and falls back to the raw string when parsing throws.  The two built-ins
  belong to the language, not to the repository.  They are parameters of the model:
  every function that reaches one of them takes the pair \<open>J\<close>, and a theorem stated for
  \<open>J\<close> holds whatever the two built-ins compute.  \<open>JSON_parse J s\<close> is \<open>None\<close> where
  \<^verbatim>\<open>JSON.parse(s)\<close> throws; a value of \<open>json\<close> has no cycle, and \<^verbatim>\<open>JSON.stringify\<close> returns
  a text for it.
\<close>

record ('c, 'n) builtins =
  JSON_parse :: "'c jsstring \<Rightarrow> ('c, 'n) json option"
  JSON_stringify :: "('c, 'n) json \<Rightarrow> 'c jsstring"

section \<open>Module state of \<^verbatim>\<open>src/index.js\<close>\<close>

text \<open>
  The module keeps its state in top-level variables: the three client handles, the two
  circuit-breaker variables and \<^verbatim>\<open>currentConfig\<close>.  The model adds what the code reaches
  through the runtime: a clock in milliseconds with the list of pending \<^verbatim>\<open>setTimeout\<close>
  deadlines, and the trace of calls the module makes on its collaborators (commands sent
  to a Redis client, invocations of the caller's handler).  Console output is left out.
  A value thrown in JavaScript is an \<open>exn\<close>; a function that may throw returns
  \<open>exn + 'a\<close> with \<open>Inl\<close> for the throw.
\<close>

datatype exn = Exn string

datatype 'c call =
    RedisGet "'c jsstring"
  | RedisSetEx "'c jsstring" int "'c jsstring"
  | RedisSet "'c jsstring" "'c jsstring"
  | RedisDel "'c jsstring"
  | RedisExists "'c jsstring"
  | RedisExpire "'c jsstring" int
  | RedisTtl "'c jsstring"
  | RedisPublish "'c jsstring" "'c jsstring"
  | RedisSubscribe "'c jsstring"
  | HandlerCall

record client =
  isReady :: bool

record 'c state =
  redisClient :: "client option"
  redisPublisher :: "client option"
  redisSubscriber :: "client option"
  isCircuitOpen :: bool
  failureCount :: nat
  keyPrefix :: "'c jsstring"
  defaultTtl :: int
  now :: nat
  timers :: "nat list"
  trace :: "'c call list"

definition FAILURE_THRESHOLD :: nat where
  "FAILURE_THRESHOLD = 3"

definition RECOVERY_TIME :: nat where
  "RECOVERY_TIME = 30000"

text \<open>The callback that \<^verbatim>\<open>openCircuit\<close> hands to \<^verbatim>\<open>setTimeout\<close>.\<close>

definition recoveryCallback :: "'c state \<Rightarrow> 'c state" where
  "recoveryCallback st = st\<lparr>isCircuitOpen := False, failureCount := 0\<rparr>"

definition openCircuit :: "'c state \<Rightarrow> 'c state" where
  "openCircuit st =
     (if \<not> isCircuitOpen st
      then st\<lparr>isCircuitOpen := True, timers := timers st @ [now st + RECOVERY_TIME]\<rparr>
      else st)"

text \<open>
  \<^verbatim>\<open>redisClient && redisClient.isReady && !isCircuitOpen\<close>: the model returns the truthiness
  of the expression (every use in the source is \<^verbatim>\<open>!isAvailable()\<close>).
\<close>

definition isAvailable :: "'c state \<Rightarrow> bool" where
  "isAvailable st =
     (case redisClient st of
        None \<Rightarrow> False
      | Some c \<Rightarrow> isReady c \<and> \<not> isCircuitOpen st)"

text \<open>
  The two statements \<^verbatim>\<open>failureCount++; if (failureCount >= FAILURE_THRESHOLD) openCircuit();\<close>
  that the \<^verbatim>\<open>'error'\<close> listener and the \<^verbatim>\<open>catch\<close> block of every operation repeat.
\<close>

definition recordFailure :: "'c state \<Rightarrow> 'c state" where
  "recordFailure st =
     (let st1 = st\<lparr>failureCount := failureCount st + 1\<rparr>
      in if FAILURE_THRESHOLD \<le> failureCount st1 then openCircuit st1 else st1)"

text \<open>
  The \<^verbatim>\<open>'ready'\<close> listener registered by \<^verbatim>\<open>initRedis\<close>.  It writes the two breaker
  variables and leaves a pending timeout where it is.
\<close>

definition onReady :: "'c state \<Rightarrow> 'c state" where
  "onReady st = st\<lparr>isCircuitOpen := False, failureCount := 0\<rparr>"

text \<open>
  The passing of \<open>d\<close> milliseconds in which nothing else runs: the clock advances and
  every timer whose deadline has been reached runs its callback and is removed.
\<close>

definition elapse :: "nat \<Rightarrow> 'c state \<Rightarrow> 'c state" where
  "elapse d st =
     (let t = now st + d;
          due = filter (\<lambda>x. x \<le> t) (timers st);
          st1 = st\<lparr>now := t, timers := filter (\<lambda>x. t < x) (timers st)\<rparr>
      in fold (\<lambda>_. recoveryCallback) due st1)"

datatype event = Failure | Elapse nat

fun step :: "event \<Rightarrow> 'c state \<Rightarrow> 'c state" where
  "step Failure st = recordFailure st"
| "step (Elapse d) st = elapse d st"

fun run :: "event list \<Rightarrow> 'c state \<Rightarrow> 'c state" where
  "run [] st = st"
| "run (e # es) st = run es (step e st)"

fun failures :: "event list \<Rightarrow> nat" where
  "failures [] = 0"
| "failures (Failure # es) = Suc (failures es)"
| "failures (Elapse d # es) = failures es"

fun duration :: "event list \<Rightarrow> nat" where
  "duration [] = 0"
| "duration (Failure # es) = duration es"
| "duration (Elapse d # es) = d + duration es"

section \<open>Accessors and the value codec\<close>

definition getRedisClient :: "'c state \<Rightarrow> exn + client" where
  "getRedisClient st =
     (case redisClient st of
        None \<Rightarrow> Inl (Exn ''Redis client not initialized. Call initRedis() first.'')
      | Some c \<Rightarrow> Inr c)"

definition getRedisPublisher :: "'c state \<Rightarrow> exn + client" where
  "getRedisPublisher st =
     (case redisPublisher st of
        None \<Rightarrow> Inl (Exn ''Redis publisher not initialized. Call initRedis() first.'')
      | Some c \<Rightarrow> Inr c)"

definition getRedisSubscriber :: "'c state \<Rightarrow> exn + client" where
  "getRedisSubscriber st =
     (case redisSubscriber st of
        None \<Rightarrow> Inl (Exn ''Redis subscriber not initialized. Call initRedis() first.'')
      | Some c \<Rightarrow> Inr c)"

definition getKey :: "'c state \<Rightarrow> 'c jsstring \<Rightarrow> 'c jsstring" where
  "getKey st key = keyPrefix st @ key"

text \<open>
  \<^verbatim>\<open>typeof value === 'string' ? value : JSON.stringify(value)\<close>, as written in \<^verbatim>\<open>setData\<close>
  and in \<^verbatim>\<open>publish\<close>.
\<close>

definition encode :: "('c, 'n) builtins \<Rightarrow> ('c, 'n) json \<Rightarrow> 'c jsstring" where
  "encode J v = (case v of JStr s \<Rightarrow> s | _ \<Rightarrow> JSON_stringify J v)"


text \<open>
  \<^verbatim>\<open>if (parseJson) { try { return JSON.parse(value); } catch { return value; } } return value;\<close>
  of \<^verbatim>\<open>getData\<close>.
\<close>

definition decode :: "('c, 'n) builtins \<Rightarrow> 'c jsstring \<Rightarrow> bool \<Rightarrow> ('c, 'n) json" where
  "decode J raw parseJson =
     (if parseJson then (case JSON_parse J raw of Some v \<Rightarrow> v | None \<Rightarrow> JStr raw)
      else JStr raw)"


section \<open>The operations\<close>

text \<open>
  Every operation awaits one reply of a Redis client.  The reply is an argument of the
  model: \<open>Inl e\<close> when the promise rejects with \<open>e\<close>, \<open>Inr r\<close> when it resolves to \<open>r\<close>.
  An operation returns what the source returns or throws, and the state after it.
  A call is traced when it is made, whatever its reply.  Operations are modelled one at a
  time: nothing else runs between an \<^verbatim>\<open>await\<close> and its continuation.
\<close>

definition send :: "'c call \<Rightarrow> 'c state \<Rightarrow> 'c state" where
  "send c st = st\<lparr>trace := trace st @ [c]\<rparr>"

definition setData ::
  "('c, 'n) builtins \<Rightarrow> 'c state \<Rightarrow> 'c jsstring \<Rightarrow> ('c, 'n) json \<Rightarrow> int option \<Rightarrow> exn + unit \<Rightarrow>
     (exn + unit) \<times> 'c state" where
  "setData J st key v ttl reply =
     (let ttl1 = (case ttl of None \<Rightarrow> defaultTtl st | Some t \<Rightarrow> t)
      in if \<not> isAvailable st then (Inr (), st)
         else
           (let prefixedKey = getKey st key;
                stringValue = encode J v;
                st1 = (if ttl1 \<noteq> 0 then send (RedisSetEx prefixedKey ttl1 stringValue) st
                       else send (RedisSet prefixedKey stringValue) st)
            in case reply of
                 Inr u \<Rightarrow> (Inr (), st1)
               | Inl e \<Rightarrow> (Inl e, recordFailure st1)))"

definition getData ::
  "('c, 'n) builtins \<Rightarrow> 'c state \<Rightarrow> 'c jsstring \<Rightarrow> bool \<Rightarrow> exn + 'c jsstring option \<Rightarrow>
     (exn + ('c, 'n) json) \<times> 'c state" where
  "getData J st key parseJson reply =
     (if \<not> isAvailable st then (Inr JNull, st)
      else
        (let st1 = send (RedisGet (getKey st key)) st
         in case reply of
              Inl e \<Rightarrow> (Inl e, recordFailure st1)
            | Inr v \<Rightarrow>
                (case v of
                   None \<Rightarrow> (Inr JNull, st1)
                 | Some s \<Rightarrow>
                     if s = [] then (Inr JNull, st1) else (Inr (decode J s parseJson), st1))))"

text \<open>
  The caller's handler may have effects and may answer differently each time it runs:
  \<open>handler i\<close> is what its invocation number \<open>i\<close> (from 0) within one call of
  \<^verbatim>\<open>getOrSet\<close> returns or throws.
\<close>

definition invoke ::
  "(nat \<Rightarrow> exn + ('c, 'n) json option) \<Rightarrow> nat \<Rightarrow> 'c state \<Rightarrow>
     (exn + ('c, 'n) json option) \<times> 'c state" where
  "invoke handler i st = (handler i, send HandlerCall st)"

text \<open>
  The \<^verbatim>\<open>catch\<close> block of \<^verbatim>\<open>getOrSet\<close>, entered after \<open>i\<close> invocations of the handler:
  \<^verbatim>\<open>return await handler()\<close>.
\<close>

definition getOrSet_catch ::
  "(nat \<Rightarrow> exn + ('c, 'n) json option) \<Rightarrow> nat \<Rightarrow> 'c state \<Rightarrow>
     (exn + ('c, 'n) json option) \<times> 'c state" where
  "getOrSet_catch handler i st = invoke handler i st"

definition getOrSet ::
  "('c, 'n) builtins \<Rightarrow> 'c state \<Rightarrow> 'c jsstring \<Rightarrow> (nat \<Rightarrow> exn + ('c, 'n) json option) \<Rightarrow>
     int option \<Rightarrow> bool \<Rightarrow> exn + 'c jsstring option \<Rightarrow> exn + unit \<Rightarrow>
     (exn + ('c, 'n) json option) \<times> 'c state" where
  "getOrSet J st key handler ttl parseJson getReply setReply =
     (let ttl1 = (case ttl of None \<Rightarrow> defaultTtl st | Some t \<Rightarrow> t)
      in if \<not> isAvailable st then
           (case invoke handler 0 st of
              (Inr v, st1) \<Rightarrow> (Inr v, st1)
            | (Inl e, st1) \<Rightarrow> getOrSet_catch handler 1 st1)
         else
           (case getData J st key parseJson getReply of
              (Inl e, st1) \<Rightarrow> getOrSet_catch handler 0 st1
            | (Inr cachedData, st1) \<Rightarrow>
                if cachedData \<noteq> JNull then (Inr (Some cachedData), st1)
                else
                  (case invoke handler 0 st1 of
                     (Inl e, st2) \<Rightarrow> getOrSet_catch handler 1 st2
                   | (Inr freshData, st2) \<Rightarrow>
                       (case freshData of
                          None \<Rightarrow> (Inr freshData, st2)
                        | Some v \<Rightarrow>
                            if v \<noteq> JNull then
                              (case setData J st2 key v (Some ttl1) setReply of
                                 (Inl e, st3) \<Rightarrow> getOrSet_catch handler 1 st3
                               | (Inr u, st3) \<Rightarrow> (Inr freshData, st3))
                            else (Inr freshData, st2)))))"

definition deleteData :: "'c state \<Rightarrow> 'c jsstring \<Rightarrow> exn + int \<Rightarrow> (exn + int) \<times> 'c state" where
  "deleteData st key reply =
     (if \<not> isAvailable st then (Inr 0, st)
      else
        (case getRedisClient st of
           Inl e \<Rightarrow> (Inl e, recordFailure st)
         | Inr c \<Rightarrow>
             (let st1 = send (RedisDel (getKey st key)) st
              in case reply of
                   Inl e \<Rightarrow> (Inl e, recordFailure st1)
                 | Inr n \<Rightarrow> (Inr n, st1))))"

definition exists :: "'c state \<Rightarrow> 'c jsstring \<Rightarrow> exn + int \<Rightarrow> (exn + bool) \<times> 'c state" where
  "exists st key reply =
     (if \<not> isAvailable st then (Inr False, st)
      else
        (case getRedisClient st of
           Inl e \<Rightarrow> (Inl e, recordFailure st)
         | Inr c \<Rightarrow>
             (let st1 = send (RedisExists (getKey st key)) st
              in case reply of
                   Inl e \<Rightarrow> (Inl e, recordFailure st1)
                 | Inr n \<Rightarrow> (Inr (n = 1), st1))))"

definition setTTL :: "'c state \<Rightarrow> 'c jsstring \<Rightarrow> int \<Rightarrow> exn + int \<Rightarrow> (exn + bool) \<times> 'c state" where
  "setTTL st key ttl reply =
     (if \<not> isAvailable st then (Inr False, st)
      else
        (case getRedisClient st of
           Inl e \<Rightarrow> (Inl e, recordFailure st)
         | Inr c \<Rightarrow>
             (let st1 = send (RedisExpire (getKey st key) ttl) st
              in case reply of
                   Inl e \<Rightarrow> (Inl e, recordFailure st1)
                 | Inr n \<Rightarrow> (Inr (n = 1), st1))))"

definition getTTL :: "'c state \<Rightarrow> 'c jsstring \<Rightarrow> exn + int \<Rightarrow> (exn + int) \<times> 'c state" where
  "getTTL st key reply =
     (if \<not> isAvailable st then (Inr (- 2), st)
      else
        (case getRedisClient st of
           Inl e \<Rightarrow> (Inl e, recordFailure st)
         | Inr c \<Rightarrow>
             (let st1 = send (RedisTtl (getKey st key)) st
              in case reply of
                   Inl e \<Rightarrow> (Inl e, recordFailure st1)
                 | Inr n \<Rightarrow> (Inr n, st1))))"

definition publish ::
  "('c, 'n) builtins \<Rightarrow> 'c state \<Rightarrow> 'c jsstring \<Rightarrow> ('c, 'n) json \<Rightarrow> exn + int \<Rightarrow>
     (exn + unit) \<times> 'c state" where
  "publish J st channel message reply =
     (if \<not> isAvailable st then (Inr (), st)
      else
        (case getRedisPublisher st of
           Inl e \<Rightarrow> (Inl e, recordFailure st)
         | Inr p \<Rightarrow>
             (let stringMessage = encode J message;
                  st1 = send (RedisPublish channel stringMessage) st
              in case reply of
                   Inl e \<Rightarrow> (Inl e, recordFailure st1)
                 | Inr n \<Rightarrow> (Inr (), st1))))"

text \<open>
  \<^verbatim>\<open>subscribe\<close> registers a listener; the delivery of messages to it is the transport's
  and is not modelled.
\<close>

definition subscribe :: "'c state \<Rightarrow> 'c jsstring \<Rightarrow> exn + unit \<Rightarrow> (exn + unit) \<times> 'c state" where
  "subscribe st channel reply =
     (if \<not> isAvailable st then (Inr (), st)
      else
        (case getRedisSubscriber st of
           Inl e \<Rightarrow> (Inl e, recordFailure st)
         | Inr s \<Rightarrow>
             (let st1 = send (RedisSubscribe channel) st
              in case reply of
                   Inl e \<Rightarrow> (Inl e, recordFailure st1)
                 | Inr u \<Rightarrow> (Inr (), st1))))"

section \<open>Concrete states, handlers and built-ins\<close>

text \<open>
  The state after \<^verbatim>\<open>initRedis()\<close> has connected with the default configuration, and the
  same state with a client that has lost its connection.
\<close>

definition connected :: "char state" where
  "connected =
     \<lparr>redisClient = Some \<lparr>isReady = True\<rparr>,
      redisPublisher = Some \<lparr>isReady = True\<rparr>,
      redisSubscriber = Some \<lparr>isReady = True\<rparr>,
      isCircuitOpen = False, failureCount = 0,
      keyPrefix = ''myapp:'', defaultTtl = 3600,
      now = 0, timers = [], trace = []\<rparr>"

definition disconnected :: "char state" where
  "disconnected = connected\<lparr>redisClient := Some \<lparr>isReady = False\<rparr>\<rparr>"

text \<open>
  Two handlers a caller can pass to \<^verbatim>\<open>getOrSet\<close>: one whose first invocation throws and
  whose later invocations return \<^verbatim>\<open>"X"\<close>, and one that returns 1, 2, 3, ... on successive
  invocations.
\<close>

definition flaky :: "nat \<Rightarrow> exn + (char, int) json option" where
  "flaky i = (if i = 0 then Inl (Exn ''database timeout'') else Inr (Some (JStr ''X'')))"

definition counter :: "nat \<Rightarrow> exn + (char, int) json option" where
  "counter i = Inr (Some (JNum (int i + 1)))"

text \<open>
  The examples reach the built-ins at a few arguments only.  \<open>sample\<close> carries their values
  there: \<^verbatim>\<open>JSON.stringify\<close> turns the number 1, the number 123 and the array \<^verbatim>\<open>[1,null]\<close>
  into the texts \<^verbatim>\<open>1\<close>, \<^verbatim>\<open>123\<close> and \<^verbatim>\<open>[1,null]\<close>, and \<^verbatim>\<open>JSON.parse\<close> reads these texts
  back as those values.  \<^verbatim>\<open>JSON.parse\<close> throws on the text \<^verbatim>\<open>plain text\<close>.  At any other
  argument the answer of \<open>sample\<close> stands for nothing, and no theorem reads it there.
\<close>

definition sample :: "(char, int) builtins" where
  "sample =
     \<lparr>JSON_parse =
        map_of [(''1'', JNum 1), (''123'', JNum 123), (''[1,null]'', JArr [JNum 1, JNull])],
      JSON_stringify =
        (\<lambda>v. case map_of [(JNum 1, ''1''), (JNum 123, ''123''),
                             (JArr [JNum 1, JNull], ''[1,null]'')] v of
               Some text \<Rightarrow> text
             | None \<Rightarrow> [])\<rparr>"

section \<open>Observations on traces and states\<close>

text \<open>The commands of a trace that went to a Redis client.\<close>

definition store_calls :: "'c call list \<Rightarrow> 'c call list" where
  "store_calls tr = filter (\<lambda>c. c \<noteq> HandlerCall) tr"

text \<open>
  What holds of the breaker in every state that recorded failures and the passing of
  time alone lead to from the connected state: while the circuit is closed no recovery is
  pending and the count is below the threshold; while it is open exactly one recovery is
  pending, and it is not yet due.  The \<^verbatim>\<open>'ready'\<close> listener does not keep it: it closes the
  circuit and leaves the recovery pending.
\<close>

definition breaker_inv :: "'c state \<Rightarrow> bool" where
  "breaker_inv st =
     (if isCircuitOpen st then (case timers st of [T] \<Rightarrow> now st < T | _ \<Rightarrow> False)
      else timers st = [] \<and> failureCount st < FAILURE_THRESHOLD)"

text \<open>
  \<open>failure_recorded st st'\<close>: from \<open>st\<close> to \<open>st'\<close> the failure count went up by one, and the
  circuit is open in \<open>st'\<close> if it was open or the count has reached the threshold, with
  one recovery timer added in the latter case only.
\<close>

definition failure_recorded :: "'c state \<Rightarrow> 'c state \<Rightarrow> bool" where
  "failure_recorded st st' =
     (failureCount st' = Suc (failureCount st) \<and>
      isCircuitOpen st' = (isCircuitOpen st \<or> FAILURE_THRESHOLD \<le> Suc (failureCount st)) \<and>
      timers st' =
        (if \<not> isCircuitOpen st \<and> FAILURE_THRESHOLD \<le> Suc (failureCount st)
         then timers st @ [now st + RECOVERY_TIME] else timers st))"

section \<open>Basic facts about the state functions\<close>

lemma isAvailable_send [simp]: "isAvailable (send c st) = isAvailable st"
  by (simp add: isAvailable_def send_def split: option.splits)

lemma trace_send [simp]: "trace (send c st) = trace st @ [c]"
  by (simp add: send_def)

lemma getKey_send [simp]: "getKey (send c st) key = getKey st key"
  by (simp add: send_def getKey_def)

lemma defaultTtl_send [simp]: "defaultTtl (send c st) = defaultTtl st"
  by (simp add: send_def)

lemma trace_recordFailure [simp]: "trace (recordFailure st) = trace st"
  by (simp add: recordFailure_def openCircuit_def Let_def)

lemma recordFailure_fields [simp]:
  "now (recordFailure st) = now st"
  "redisClient (recordFailure st) = redisClient st"
  by (simp_all add: recordFailure_def openCircuit_def Let_def)

lemma failure_recorded_send: "failure_recorded st (recordFailure (send c st))"
  by (simp add: failure_recorded_def recordFailure_def openCircuit_def send_def Let_def)

lemma failure_recorded_plain: "failure_recorded st (recordFailure st)"
  by (simp add: failure_recorded_def recordFailure_def openCircuit_def Let_def)

lemma available_client: "isAvailable st \<Longrightarrow> \<exists>c. redisClient st = Some c"
  by (auto simp: isAvailable_def split: option.splits)

lemma open_unavailable: "isCircuitOpen st \<Longrightarrow> \<not> isAvailable st"
  by (simp add: isAvailable_def split: option.splits)

lemma connected_available: "isAvailable connected"
  by (simp add: connected_def isAvailable_def)

lemma recordFailure_closed:
  "\<not> isCircuitOpen st \<Longrightarrow> Suc (failureCount st) < FAILURE_THRESHOLD \<Longrightarrow>
     recordFailure st = st\<lparr>failureCount := Suc (failureCount st)\<rparr>"
  by (simp add: recordFailure_def Let_def)

lemma recordFailure_opens:
  "\<not> isCircuitOpen st \<Longrightarrow> FAILURE_THRESHOLD \<le> Suc (failureCount st) \<Longrightarrow>
     recordFailure st =
       st\<lparr>failureCount := Suc (failureCount st), isCircuitOpen := True,
          timers := timers st @ [now st + RECOVERY_TIME]\<rparr>"
  by (simp add: recordFailure_def openCircuit_def Let_def)

lemma recordFailure_open:
  "isCircuitOpen st \<Longrightarrow> recordFailure st = st\<lparr>failureCount := Suc (failureCount st)\<rparr>"
  by (simp add: recordFailure_def openCircuit_def Let_def)

lemma fold_recoveryCallback_fields [simp]:
  "now (fold (\<lambda>_. recoveryCallback) xs st) = now st"
  "timers (fold (\<lambda>_. recoveryCallback) xs st) = timers st"
  "redisClient (fold (\<lambda>_. recoveryCallback) xs st) = redisClient st"
  by (induction xs arbitrary: st) (simp_all add: recoveryCallback_def)

lemma fold_recoveryCallback_closed:
  "xs \<noteq> [] \<Longrightarrow> \<not> isCircuitOpen (fold (\<lambda>_. recoveryCallback) xs st) \<and>
     failureCount (fold (\<lambda>_. recoveryCallback) xs st) = 0"
proof (induction xs arbitrary: st)
  case Nil
  then show ?case by simp
next
  case (Cons x xs)
  show ?case
  proof (cases "xs = []")
    case True
    then show ?thesis by (simp add: recoveryCallback_def)
  next
    case False
    with Cons.IH show ?thesis by simp
  qed
qed

lemma elapse_no_timers:
  "timers st = [] \<Longrightarrow> elapse d st = st\<lparr>now := now st + d\<rparr>"
  by (simp add: elapse_def Let_def)

lemma elapse_before_deadline:
  "timers st = [T] \<Longrightarrow> now st + d < T \<Longrightarrow> elapse d st = st\<lparr>now := now st + d\<rparr>"
  by (simp add: elapse_def Let_def)

lemma elapse_fires:
  assumes "T \<in> set (timers st)" and "T \<le> now st + d"
  shows "\<not> isCircuitOpen (elapse d st) \<and> failureCount (elapse d st) = 0 \<and>
         redisClient (elapse d st) = redisClient st"
proof -
  from assms have "filter (\<lambda>x. x \<le> now st + d) (timers st) \<noteq> []"
    by (auto simp: filter_empty_conv)
  then show ?thesis
    by (simp add: elapse_def Let_def fold_recoveryCallback_closed)
qed

lemma run_append: "run (es1 @ es2) st = run es2 (run es1 st)"
  by (induction es1 arbitrary: st) simp_all

text \<open>While the circuit is closed and the count stays below the threshold, nothing opens it.\<close>

lemma run_closed:
  "\<not> isCircuitOpen st \<Longrightarrow> timers st = [] \<Longrightarrow> failureCount st + failures es < FAILURE_THRESHOLD \<Longrightarrow>
     \<not> isCircuitOpen (run es st) \<and> timers (run es st) = [] \<and>
     failureCount (run es st) = failureCount st + failures es \<and>
     now (run es st) = now st + duration es \<and> redisClient (run es st) = redisClient st"
proof (induction es arbitrary: st)
  case Nil
  then show ?case by simp
next
  case (Cons e es)
  show ?case
  proof (cases e)
    case Failure
    with Cons.prems have s: "step e st = st\<lparr>failureCount := Suc (failureCount st)\<rparr>"
      by (simp add: recordFailure_closed)
    from Cons.prems Failure
    have "failureCount (st\<lparr>failureCount := Suc (failureCount st)\<rparr>) + failures es < FAILURE_THRESHOLD"
      by simp
    with Cons.IH [of "st\<lparr>failureCount := Suc (failureCount st)\<rparr>"] Cons.prems s show ?thesis
      by (simp add: Failure)
  next
    case (Elapse d)
    with Cons.prems have s: "step e st = st\<lparr>now := now st + d\<rparr>"
      by (simp add: elapse_no_timers)
    with Cons.IH [of "step e st"] Cons.prems show ?thesis
      by (simp add: s Elapse)
  qed
qed

text \<open>While the circuit is open and its one timer is not yet due, it stays as it is.\<close>

lemma run_open:
  "isCircuitOpen st \<Longrightarrow> timers st = [T] \<Longrightarrow> now st + duration es < T \<Longrightarrow>
     isCircuitOpen (run es st) \<and> timers (run es st) = [T] \<and>
     now (run es st) = now st + duration es \<and> redisClient (run es st) = redisClient st"
proof (induction es arbitrary: st)
  case Nil
  then show ?case by simp
next
  case (Cons e es)
  show ?case
  proof (cases e)
    case Failure
    with Cons.prems have s: "step e st = st\<lparr>failureCount := Suc (failureCount st)\<rparr>"
      by (simp add: recordFailure_open)
    with Cons.IH [of "step e st"] Cons.prems show ?thesis
      by (simp add: s Failure)
  next
    case (Elapse d)
    with Cons.prems have s: "step e st = st\<lparr>now := now st + d\<rparr>"
      by (simp add: elapse_before_deadline)
    with Cons.IH [of "step e st"] Cons.prems show ?thesis
      by (simp add: s Elapse)
  qed
qed

text \<open>A pending timer stays pending until the clock reaches its deadline.\<close>

lemma timer_kept:
  "T \<in> set (timers st) \<Longrightarrow> now st + duration es < T \<Longrightarrow>
     T \<in> set (timers (run es st)) \<and> now (run es st) = now st + duration es \<and>
     redisClient (run es st) = redisClient st"
proof (induction es arbitrary: st)
  case Nil
  then show ?case by simp
next
  case (Cons e es)
  show ?case
  proof (cases e)
    case Failure
    from Cons.prems have "T \<in> set (timers (recordFailure st))"
      by (auto simp: recordFailure_def openCircuit_def Let_def)
    with Cons.IH [of "recordFailure st"] Cons.prems Failure show ?thesis
      by simp
  next
    case (Elapse d)
    from Cons.prems Elapse have "T \<in> set (timers (elapse d st))" "now (elapse d st) = now st + d"
      "redisClient (elapse d st) = redisClient st"
      by (simp_all add: elapse_def Let_def)
    with Cons.IH [of "elapse d st"] Cons.prems Elapse show ?thesis
      by simp
  qed
qed

text \<open>The invariant of the breaker under recorded failures and passing time.\<close>

lemma breaker_inv_open:
  "breaker_inv st \<Longrightarrow> isCircuitOpen st \<Longrightarrow> \<exists>T. timers st = [T] \<and> now st < T"
  by (auto simp: breaker_inv_def split: list.splits)

lemma breaker_inv_step:
  assumes "breaker_inv st"
  shows "breaker_inv (step e st)"
proof (cases e)
  case Failure
  show ?thesis
  proof (cases "isCircuitOpen st")
    case True
    with assms Failure show ?thesis
      by (simp add: recordFailure_open breaker_inv_def split: list.splits)
  next
    case False
    show ?thesis
    proof (cases "Suc (failureCount st) < FAILURE_THRESHOLD")
      case True
      with False assms Failure show ?thesis
        by (simp add: recordFailure_closed breaker_inv_def)
    next
      case c: False
      with False assms Failure show ?thesis
        by (simp add: recordFailure_opens breaker_inv_def RECOVERY_TIME_def)
    qed
  qed
next
  case (Elapse d)
  show ?thesis
  proof (cases "isCircuitOpen st")
    case False
    with assms Elapse show ?thesis
      by (simp add: elapse_no_timers breaker_inv_def)
  next
    case True
    with assms obtain T where T: "timers st = [T]" "now st < T"
      using breaker_inv_open by blast
    show ?thesis
    proof (cases "now st + d < T")
      case True
      with T assms Elapse \<open>isCircuitOpen st\<close> show ?thesis
        by (simp add: elapse_before_deadline breaker_inv_def)
    next
      case False
      with T Elapse show ?thesis
        by (simp add: elapse_def Let_def recoveryCallback_def breaker_inv_def FAILURE_THRESHOLD_def)
    qed
  qed
qed

lemma breaker_inv_run: "breaker_inv st \<Longrightarrow> breaker_inv (run es st)"
  by (induction es arbitrary: st) (simp_all add: breaker_inv_step del: step.simps)

lemma breaker_inv_connected: "breaker_inv connected"
  by (simp add: breaker_inv_def connected_def FAILURE_THRESHOLD_def)

lemma reachable_closed:
  "\<not> isCircuitOpen (run es connected) \<Longrightarrow>
     failureCount (run es connected) < FAILURE_THRESHOLD \<and> timers (run es connected) = []"
  using breaker_inv_run [OF breaker_inv_connected, of es]
  by (simp add: breaker_inv_def)

section \<open>The value codec\<close>




section \<open>The cache-aside operation\<close>

text \<open>
  Claim C1 says that one call of \<^verbatim>\<open>getOrSet\<close> invokes the handler at most once, whatever
  fails.  The \<^verbatim>\<open>try\<close> block of \<^verbatim>\<open>getOrSet\<close> encloses the invocation of the handler and
  the write, and its \<^verbatim>\<open>catch\<close> block invokes the handler again: on a cache miss with a
  handler that throws, the trace of the call holds two invocations.
\<close>

theorem getOrSet_invokes_handler_twice:
  "trace (snd (getOrSet J connected ''k'' flaky None True (Inr None) (Inr ()))) =
     [RedisGet ''myapp:k'', HandlerCall, HandlerCall]"
  by (simp add: getOrSet_def getData_def invoke_def getOrSet_catch_def flaky_def connected_def
        isAvailable_def send_def getKey_def Let_def)

text \<open>
  Claim C2 says that on a cache miss an exception thrown by the handler reaches the caller
  of \<^verbatim>\<open>getOrSet\<close> unmodified, with no secondary fallback.  The \<^verbatim>\<open>catch\<close> block takes the
  exception and runs the handler a second time: with a handler that throws once and then
  returns \<^verbatim>\<open>"X"\<close>, the call returns \<^verbatim>\<open>"X"\<close> and nothing is thrown.
\<close>

theorem getOrSet_swallows_handler_exception:
  "flaky 0 = Inl (Exn ''database timeout'') \<and>
   fst (getOrSet J connected ''k'' flaky None True (Inr None) (Inr ())) = Inr (Some (JStr ''X''))"
  by (simp add: getOrSet_def getData_def invoke_def getOrSet_catch_def flaky_def connected_def
        isAvailable_def send_def getKey_def Let_def)

text \<open>
  Claim C3 says that when the handler has returned a value and the write to the cache
  fails, \<^verbatim>\<open>getOrSet\<close> still returns the value the handler produced.  The failed write
  enters the \<^verbatim>\<open>catch\<close> block, which returns the result of a second invocation: with a
  handler that returns 1 and then 2, the call returns 2.
\<close>

theorem getOrSet_failed_write_returns_second_result:
  "counter 0 = Inr (Some (JNum 1)) \<and>
   fst (getOrSet J connected ''k'' counter None True (Inr None) (Inl (Exn ''READONLY''))) =
     Inr (Some (JNum 2))"
  by (simp add: getOrSet_def getData_def setData_def invoke_def getOrSet_catch_def counter_def
        connected_def isAvailable_def send_def getKey_def Let_def recordFailure_def
        FAILURE_THRESHOLD_def)

section \<open>The circuit breaker\<close>

text \<open>
  Claim C4 says that a store operation that succeeds while the circuit is closed resets
  \<^verbatim>\<open>failureCount\<close> to 0, so that only consecutive failures open the circuit.  No
  operation writes \<^verbatim>\<open>failureCount\<close> on its success path: after a failed and then a
  successful \<^verbatim>\<open>setData\<close> the count is still 1, and three failures separated by
  successes open the circuit.
\<close>

theorem success_keeps_failureCount:
  "(let s1 = snd (setData J connected ''k'' (JNum (1::int)) None (Inl (Exn ''timeout'')));
        s2 = snd (setData J s1 ''k'' (JNum 1) None (Inr ()));
        s3 = snd (setData J s2 ''k'' (JNum 1) None (Inl (Exn ''timeout'')));
        s4 = snd (getData J s3 ''k'' True (Inr (Some ''1'')));
        s5 = snd (getData J s4 ''k'' True (Inl (Exn ''timeout'')))
    in \<not> isCircuitOpen s1 \<and> failureCount s1 = 1 \<and>
       \<not> isCircuitOpen s2 \<and> failureCount s2 = 1 \<and>
       \<not> isCircuitOpen s4 \<and> failureCount s4 = 2 \<and>
       isCircuitOpen s5)"
  by (simp add: getData_def setData_def connected_def isAvailable_def send_def getKey_def Let_def
       recordFailure_def openCircuit_def FAILURE_THRESHOLD_def)

text \<open>
  Claim C5 says that from the failure that opens the circuit \<^verbatim>\<open>isAvailable()\<close> stays false
  until the recovery window has elapsed.  Three failures open the circuit at time 0 and
  set a timeout for 30000.  The client reconnects, and the \<^verbatim>\<open>'ready'\<close> listener closes the
  circuit with that timeout still pending.  At time 100 three more failures open the
  circuit again and set a second timeout for 30100.  At time 30000 the first timeout
  fires: the circuit is closed and \<^verbatim>\<open>isAvailable()\<close> is true 29900 ms after the
  transition.
\<close>

theorem stale_timer_closes_circuit_early:
  "(let s1 = run [Failure, Failure, Failure] connected;
        s2 = onReady s1;
        s3 = run [Elapse 100, Failure, Failure, Failure] s2;
        s4 = run [Elapse 29900] s3
    in isCircuitOpen s1 \<and> timers s1 = [30000] \<and>
       \<not> isCircuitOpen s2 \<and> failureCount s2 = 0 \<and> timers s2 = [30000] \<and>
       \<not> isCircuitOpen (run [Elapse 100, Failure, Failure] s2) \<and>
       isCircuitOpen s3 \<and> now s3 = 100 \<and> timers s3 = [30000, 30100] \<and>
       now s4 = 30000 \<and> \<not> isCircuitOpen s4 \<and> isAvailable s4)"
proof -
  have s1: "run [Failure, Failure, Failure] connected =
      connected\<lparr>isCircuitOpen := True, failureCount := 3, timers := [30000]\<rparr>"
    by (simp add: connected_def recordFailure_def openCircuit_def FAILURE_THRESHOLD_def
          RECOVERY_TIME_def Let_def)
  have s2: "onReady (connected\<lparr>isCircuitOpen := True, failureCount := 3, timers := [30000]\<rparr>) =
      connected\<lparr>timers := [30000]\<rparr>"
    by (simp add: onReady_def connected_def)
  have e: "elapse 100 (connected\<lparr>timers := [30000]\<rparr>) = connected\<lparr>now := 100, timers := [30000]\<rparr>"
    by (simp add: elapse_def connected_def Let_def)
  have f2: "run [Failure, Failure] (connected\<lparr>now := 100, timers := [30000]\<rparr>) =
      connected\<lparr>failureCount := 2, now := 100, timers := [30000]\<rparr>"
    by (simp add: connected_def recordFailure_def FAILURE_THRESHOLD_def Let_def)
  have f3: "recordFailure (connected\<lparr>failureCount := 2, now := 100, timers := [30000]\<rparr>) =
      connected\<lparr>isCircuitOpen := True, failureCount := 3, now := 100, timers := [30000, 30100]\<rparr>"
    by (simp add: connected_def recordFailure_def openCircuit_def FAILURE_THRESHOLD_def
          RECOVERY_TIME_def Let_def)
  have s3a: "run [Elapse 100, Failure, Failure] (connected\<lparr>timers := [30000]\<rparr>) =
      connected\<lparr>failureCount := 2, now := 100, timers := [30000]\<rparr>"
    using f2 by (simp add: e)
  have s3: "run [Elapse 100, Failure, Failure, Failure] (connected\<lparr>timers := [30000]\<rparr>) =
      connected\<lparr>isCircuitOpen := True, failureCount := 3, now := 100, timers := [30000, 30100]\<rparr>"
    using f2 f3 by (simp add: e)
  have s4: "run [Elapse 29900]
        (connected\<lparr>isCircuitOpen := True, failureCount := 3, now := 100, timers := [30000, 30100]\<rparr>) =
      connected\<lparr>now := 30000, timers := [30100]\<rparr>"
    by (simp add: elapse_def recoveryCallback_def connected_def Let_def)
  show ?thesis
    unfolding Let_def s1 s2 s3a s3 s4
    by (simp add: connected_def isAvailable_def)
qed

text \<open>
  What the breaker does guarantee.  In every sequence of recorded failures and passing
  time that starts with the circuit closed and no recovery pending, the circuit stays
  closed while the cumulative count is below the threshold; the failure that makes the
  count reach the threshold opens it and schedules the one recovery timer,
  \<^verbatim>\<open>RECOVERY_TIME\<close> after that failure; whatever failures follow before the window has
  elapsed, the circuit stays open, the timer is the same one, and \<^verbatim>\<open>isAvailable()\<close> is
  false.  The three hypotheses hold in every closed state that recorded failures and
  passing time alone lead to from the connected state (\<open>reachable_closed\<close>); they fail after
  the \<^verbatim>\<open>'ready'\<close> listener has closed an open circuit.
\<close>

theorem circuit_opens_once_at_threshold:
  assumes "\<not> isCircuitOpen s" and "failureCount s < FAILURE_THRESHOLD" and "timers s = []"
  shows "(failureCount s + failures es < FAILURE_THRESHOLD \<longrightarrow>
            \<not> isCircuitOpen (run es s) \<and> timers (run es s) = []) \<and>
         (failureCount s + failures es1 + 1 = FAILURE_THRESHOLD \<and> duration es2 < RECOVERY_TIME \<longrightarrow>
            isCircuitOpen (run (es1 @ Failure # es2) s) \<and>
            timers (run (es1 @ Failure # es2) s) = [now (run es1 s) + RECOVERY_TIME] \<and>
            \<not> isAvailable (run (es1 @ Failure # es2) s))"
proof (intro conjI impI)
  assume "failureCount s + failures es < FAILURE_THRESHOLD"
  with assms run_closed [of s es] show "\<not> isCircuitOpen (run es s)" and "timers (run es s) = []"
    by simp_all
next
  assume a: "failureCount s + failures es1 + 1 = FAILURE_THRESHOLD \<and> duration es2 < RECOVERY_TIME"
  define c where "c = run es1 s"
  from a assms run_closed [of s es1]
  have c: "\<not> isCircuitOpen c" "timers c = []" "Suc (failureCount c) = FAILURE_THRESHOLD"
    by (simp_all add: c_def)
  define p where "p = recordFailure c"
  from c have p: "isCircuitOpen p" "timers p = [now c + RECOVERY_TIME]" "now p = now c"
    by (simp_all add: p_def recordFailure_opens)
  from a p have "now p + duration es2 < now c + RECOVERY_TIME" by simp
  with p run_open [of p "now c + RECOVERY_TIME" es2]
  have r: "isCircuitOpen (run es2 p)" "timers (run es2 p) = [now c + RECOVERY_TIME]"
    by simp_all
  have e: "run (es1 @ Failure # es2) s = run es2 p"
    by (simp add: run_append c_def p_def)
  from r show "isCircuitOpen (run (es1 @ Failure # es2) s)"
    and "timers (run (es1 @ Failure # es2) s) = [now (run es1 s) + RECOVERY_TIME]"
    and "\<not> isAvailable (run (es1 @ Failure # es2) s)"
    by (simp_all add: e c_def open_unavailable)
qed

theorem circuit_opens_once_at_threshold_witness:
  "\<not> isCircuitOpen (run [Failure, Elapse 100, Failure] connected) \<and>
   isCircuitOpen
     (run ([Failure, Elapse 100, Failure] @ Failure # [Failure, Elapse 29999, Failure]) connected) \<and>
   timers
     (run ([Failure, Elapse 100, Failure] @ Failure # [Failure, Elapse 29999, Failure]) connected) =
     [30100] \<and>
   \<not> isAvailable
     (run ([Failure, Elapse 100, Failure] @ Failure # [Failure, Elapse 29999, Failure]) connected)"
proof -
  have h: "\<not> isCircuitOpen connected" "failureCount connected < FAILURE_THRESHOLD"
    "timers connected = []"
    by (simp_all add: connected_def FAILURE_THRESHOLD_def)
  have n: "now (run [Failure, Elapse 100, Failure] connected) = 100"
    by (simp add: connected_def recordFailure_def elapse_def FAILURE_THRESHOLD_def Let_def)
  have p: "failureCount connected + failures [Failure, Elapse 100, Failure] < FAILURE_THRESHOLD"
    "failureCount connected + failures [Failure, Elapse 100, Failure] + 1 = FAILURE_THRESHOLD"
    "duration [Failure, Elapse 29999, Failure] < RECOVERY_TIME"
    by (simp_all add: connected_def FAILURE_THRESHOLD_def RECOVERY_TIME_def)
  from circuit_opens_once_at_threshold
         [OF h, of "[Failure, Elapse 100, Failure]" "[Failure, Elapse 100, Failure]"
            "[Failure, Elapse 29999, Failure]"]
    p n
  show ?thesis
    by (simp add: RECOVERY_TIME_def del: run.simps)
qed

text \<open>
  Claim C6 says that once the recovery window has elapsed after an Open transition,
  \<^verbatim>\<open>isAvailable()\<close> returns true.  \<^verbatim>\<open>isAvailable\<close> also asks the client for \<^verbatim>\<open>isReady\<close>:
  with a client that has lost its connection, three \<^verbatim>\<open>'error'\<close> events open the circuit
  and 30,000 ms later \<^verbatim>\<open>isAvailable()\<close> is still false.
\<close>

theorem recovered_circuit_not_available:
  "\<not> isCircuitOpen (run [Failure, Failure] disconnected) \<and>
   isCircuitOpen (run [Failure, Failure, Failure] disconnected) \<and>
   \<not> isCircuitOpen (run [Failure, Failure, Failure, Elapse 30000] disconnected) \<and>
   \<not> isAvailable (run [Failure, Failure, Failure, Elapse 30000] disconnected)"
  by (simp add: disconnected_def connected_def recordFailure_def openCircuit_def elapse_def
        recoveryCallback_def isAvailable_def FAILURE_THRESHOLD_def RECOVERY_TIME_def Let_def)

text \<open>
  Claim C6, amended: once the recovery window has elapsed after \<^verbatim>\<open>openCircuit\<close> opened
  the circuit, whatever failures were recorded in between, the circuit is closed and
  \<^verbatim>\<open>failureCount\<close> reads 0 without any call from outside; \<^verbatim>\<open>isAvailable()\<close> is then true
  exactly when the client exists and is ready.
\<close>

theorem recovery_closes_circuit:
  assumes "\<not> isCircuitOpen s" and "duration es < RECOVERY_TIME"
    and "RECOVERY_TIME \<le> duration es + d"
  shows "\<not> isCircuitOpen (run (es @ [Elapse d]) (openCircuit s)) \<and>
         failureCount (run (es @ [Elapse d]) (openCircuit s)) = 0 \<and>
         isAvailable (run (es @ [Elapse d]) (openCircuit s)) =
           (case redisClient s of None \<Rightarrow> False | Some c \<Rightarrow> isReady c)"
proof -
  define T where "T = now s + RECOVERY_TIME"
  define p where "p = openCircuit s"
  from assms(1) have p: "T \<in> set (timers p)" "now p = now s" "redisClient p = redisClient s"
    by (simp_all add: p_def T_def openCircuit_def)
  define m where "m = run es p"
  from p assms(2) timer_kept [of T p es]
  have m: "T \<in> set (timers m)" "now m = now s + duration es" "redisClient m = redisClient s"
    by (simp_all add: m_def T_def)
  from m assms(3) have "T \<le> now m + d" by (simp add: T_def)
  with m elapse_fires [of T m d]
  have f: "\<not> isCircuitOpen (elapse d m)" "failureCount (elapse d m) = 0"
    "redisClient (elapse d m) = redisClient s"
    by simp_all
  have e: "run (es @ [Elapse d]) (openCircuit s) = elapse d m"
    by (simp add: run_append m_def p_def)
  from f show ?thesis
    by (simp add: e isAvailable_def split: option.splits)
qed

theorem recovery_closes_circuit_witness:
  "\<not> isCircuitOpen (run ([Failure, Elapse 29999, Failure] @ [Elapse 1]) (openCircuit disconnected)) \<and>
   failureCount (run ([Failure, Elapse 29999, Failure] @ [Elapse 1]) (openCircuit disconnected)) = 0 \<and>
   \<not> isAvailable (run ([Failure, Elapse 29999, Failure] @ [Elapse 1]) (openCircuit disconnected)) \<and>
   isAvailable (run ([Failure, Elapse 29999, Failure] @ [Elapse 1]) (openCircuit connected))"
proof -
  have h: "\<not> isCircuitOpen disconnected" "\<not> isCircuitOpen connected"
    "duration [Failure, Elapse 29999, Failure] < RECOVERY_TIME"
    "RECOVERY_TIME \<le> duration [Failure, Elapse 29999, Failure] + 1"
    by (simp_all add: disconnected_def connected_def RECOVERY_TIME_def)
  from recovery_closes_circuit [OF h(1) h(3) h(4)] recovery_closes_circuit [OF h(2) h(3) h(4)]
  show ?thesis
    by (simp add: disconnected_def connected_def del: run.simps)
qed

section \<open>Failure and fallback of the direct operations\<close>

text \<open>
  Claim C8: while the module is available (client ready, circuit closed), each of
  \<^verbatim>\<open>getData\<close>, \<^verbatim>\<open>setData\<close>, \<^verbatim>\<open>deleteData\<close>, \<^verbatim>\<open>exists\<close>, \<^verbatim>\<open>setTTL\<close>, \<^verbatim>\<open>getTTL\<close>, \<^verbatim>\<open>publish\<close>
  and \<^verbatim>\<open>subscribe\<close> whose command is rejected with \<open>e\<close> records one failure (the count goes
  up by one, and the circuit opens with a recovery timer if the count reaches the
  threshold) and throws \<open>e\<close> to its caller.  \<^verbatim>\<open>publish\<close> and \<^verbatim>\<open>subscribe\<close> fetch their
  client through an accessor that throws when the handle is missing; that error is
  recorded and thrown in the same way.
\<close>

theorem failed_operation_records_failure:
  assumes "isAvailable st"
  shows "(fst (getData J st key parseJson (Inl e)) = Inl e \<and>
            failure_recorded st (snd (getData J st key parseJson (Inl e)))) \<and>
         (fst (setData J st key v ttl (Inl e)) = Inl e \<and>
            failure_recorded st (snd (setData J st key v ttl (Inl e)))) \<and>
         (fst (deleteData st key (Inl e)) = Inl e \<and>
            failure_recorded st (snd (deleteData st key (Inl e)))) \<and>
         (fst (exists st key (Inl e)) = Inl e \<and>
            failure_recorded st (snd (exists st key (Inl e)))) \<and>
         (fst (setTTL st key t (Inl e)) = Inl e \<and>
            failure_recorded st (snd (setTTL st key t (Inl e)))) \<and>
         (fst (getTTL st key (Inl e)) = Inl e \<and>
            failure_recorded st (snd (getTTL st key (Inl e)))) \<and>
         (fst (publish J st channel message (Inl e)) =
              (case getRedisPublisher st of Inl e' \<Rightarrow> Inl e' | Inr p \<Rightarrow> Inl e) \<and>
            failure_recorded st (snd (publish J st channel message (Inl e)))) \<and>
         (fst (subscribe st channel (Inl e)) =
              (case getRedisSubscriber st of Inl e' \<Rightarrow> Inl e' | Inr s \<Rightarrow> Inl e) \<and>
            failure_recorded st (snd (subscribe st channel (Inl e))))"
proof -
  obtain c where c: "redisClient st = Some c"
    using assms available_client by blast
  have g: "fst (getData J st key parseJson (Inl e)) = Inl e \<and>
            failure_recorded st (snd (getData J st key parseJson (Inl e)))"
    using assms by (simp add: getData_def Let_def failure_recorded_send)
  have s: "fst (setData J st key v ttl (Inl e)) = Inl e \<and>
            failure_recorded st (snd (setData J st key v ttl (Inl e)))"
    using assms by (simp add: setData_def Let_def failure_recorded_send)
  have d: "fst (deleteData st key (Inl e)) = Inl e \<and>
            failure_recorded st (snd (deleteData st key (Inl e)))"
    using assms c by (simp add: deleteData_def getRedisClient_def Let_def failure_recorded_send)
  have x: "fst (exists st key (Inl e)) = Inl e \<and>
            failure_recorded st (snd (exists st key (Inl e)))"
    using assms c by (simp add: exists_def getRedisClient_def Let_def failure_recorded_send)
  have st: "fst (setTTL st key t (Inl e)) = Inl e \<and>
            failure_recorded st (snd (setTTL st key t (Inl e)))"
    using assms c by (simp add: setTTL_def getRedisClient_def Let_def failure_recorded_send)
  have gt: "fst (getTTL st key (Inl e)) = Inl e \<and>
            failure_recorded st (snd (getTTL st key (Inl e)))"
    using assms c by (simp add: getTTL_def getRedisClient_def Let_def failure_recorded_send)
  have p: "fst (publish J st channel message (Inl e)) =
              (case getRedisPublisher st of Inl e' \<Rightarrow> Inl e' | Inr p \<Rightarrow> Inl e) \<and>
            failure_recorded st (snd (publish J st channel message (Inl e)))"
    using assms
    by (cases "redisPublisher st")
       (simp_all add: publish_def getRedisPublisher_def Let_def failure_recorded_send
          failure_recorded_plain)
  have sb: "fst (subscribe st channel (Inl e)) =
              (case getRedisSubscriber st of Inl e' \<Rightarrow> Inl e' | Inr s \<Rightarrow> Inl e) \<and>
            failure_recorded st (snd (subscribe st channel (Inl e)))"
    using assms
    by (cases "redisSubscriber st")
       (simp_all add: subscribe_def getRedisSubscriber_def Let_def failure_recorded_send
          failure_recorded_plain)
  from g s d x st gt p sb show ?thesis by blast
qed

theorem failed_operation_records_failure_witness:
  "isAvailable connected \<and>
   fst (getTTL connected ''k'' (Inl (Exn ''ECONNRESET''))) = Inl (Exn ''ECONNRESET'') \<and>
   failureCount (snd (getTTL connected ''k'' (Inl (Exn ''ECONNRESET'')))) = 1 \<and>
   fst (publish sample connected ''news'' (JStr ''hi'') (Inl (Exn ''ECONNRESET''))) = Inl (Exn ''ECONNRESET'') \<and>
   failureCount (snd (publish sample connected ''news'' (JStr ''hi'') (Inl (Exn ''ECONNRESET'')))) = 1"
proof -
  have p: "getRedisPublisher connected = Inr \<lparr>isReady = True\<rparr>" "failureCount connected = 0"
    by (simp_all add: connected_def getRedisPublisher_def)
  from failed_operation_records_failure
         [OF connected_available, where J = sample and key = "''k''" and e = "Exn ''ECONNRESET''"
            and channel = "''news''" and message = "JStr ''hi''"]
    p connected_available
  show ?thesis
    by (simp add: failure_recorded_def)
qed

text \<open>
  Claim C9: whenever \<^verbatim>\<open>isAvailable()\<close> is false, \<^verbatim>\<open>getData\<close> returns \<^verbatim>\<open>null\<close>, \<^verbatim>\<open>setData\<close>
  does nothing, \<^verbatim>\<open>deleteData\<close> returns 0, \<^verbatim>\<open>exists\<close> and \<^verbatim>\<open>setTTL\<close> return \<^verbatim>\<open>false\<close> and
  \<^verbatim>\<open>getTTL\<close> returns -2, each without a command to the store, without a change of state
  and without throwing (\<^verbatim>\<open>publish\<close> and \<^verbatim>\<open>subscribe\<close> do nothing, likewise); \<^verbatim>\<open>getOrSet\<close>
  sends no command to the store either, and when the handler returns a result it is
  invoked once and that result is returned.
\<close>

theorem unavailable_fallbacks:
  assumes "\<not> isAvailable st"
  shows "getData J st key parseJson r1 = (Inr JNull, st) \<and>
         setData J st key v ttl r2 = (Inr (), st) \<and>
         deleteData st key r3 = (Inr 0, st) \<and>
         exists st key r4 = (Inr False, st) \<and>
         setTTL st key t r5 = (Inr False, st) \<and>
         getTTL st key r6 = (Inr (- 2), st) \<and>
         publish J st channel message r7 = (Inr (), st) \<and>
         subscribe st channel r8 = (Inr (), st) \<and>
         store_calls (trace (snd (getOrSet J st key handler ttl parseJson r1 r2))) =
           store_calls (trace st) \<and>
         (\<forall>x. handler 0 = Inr x \<longrightarrow>
            getOrSet J st key handler ttl parseJson r1 r2 = (Inr x, send HandlerCall st))"
  using assms
  by (cases "handler 0")
     (simp_all add: getData_def setData_def deleteData_def exists_def setTTL_def getTTL_def
        publish_def subscribe_def getOrSet_def invoke_def getOrSet_catch_def store_calls_def
        send_def Let_def)

theorem unavailable_fallbacks_witness:
  "\<not> isAvailable (openCircuit connected) \<and>
   getData sample (openCircuit connected) ''k'' True (Inr (Some ''1'')) = (Inr JNull, openCircuit connected) \<and>
   getTTL (openCircuit connected) ''k'' (Inr 60) = (Inr (- 2), openCircuit connected) \<and>
   getOrSet sample (openCircuit connected) ''k'' counter None True (Inr (Some ''7'')) (Inr ()) =
     (Inr (Some (JNum 1)), send HandlerCall (openCircuit connected))"
proof -
  have h: "\<not> isAvailable (openCircuit connected)"
    by (simp add: open_unavailable openCircuit_def connected_def)
  have c: "counter 0 = Inr (Some (JNum 1))"
    by (simp add: counter_def)
  from unavailable_fallbacks
         [OF h, where J = sample and key = "''k''" and parseJson = True and ?r1.0 = "Inr (Some ''1'')"
            and ?r6.0 = "Inr 60"]
       unavailable_fallbacks
         [OF h, where J = sample and key = "''k''" and parseJson = True and ?r1.0 = "Inr (Some ''7'')"
            and ?r2.0 = "Inr ()" and handler = counter and ttl = None]
       h c
  show ?thesis
    by simp
qed

text \<open>
  Claim C10: when the store answers a \<^verbatim>\<open>get\<close> with the empty string, \<^verbatim>\<open>getData\<close> returns
  \<^verbatim>\<open>null\<close>, exactly as it does for a missing key, and \<^verbatim>\<open>getOrSet\<close> behaves as on a miss:
  after the \<^verbatim>\<open>get\<close> command it invokes the handler.
\<close>

theorem empty_string_is_a_miss:
  assumes "isAvailable st"
  shows "getData J st key parseJson (Inr (Some [])) =
           (Inr JNull, send (RedisGet (getKey st key)) st) \<and>
         getData J st key parseJson (Inr (Some [])) = getData J st key parseJson (Inr None) \<and>
         getOrSet J st key handler ttl parseJson (Inr (Some [])) setReply =
           getOrSet J st key handler ttl parseJson (Inr None) setReply \<and>
         (\<exists>tr. trace (snd (getOrSet J st key handler ttl parseJson (Inr (Some [])) setReply)) =
                 trace st @ [RedisGet (getKey st key), HandlerCall] @ tr)"
proof -
  have g: "getData J st key parseJson (Inr (Some [])) =
             (Inr JNull, send (RedisGet (getKey st key)) st)"
    using assms by (simp add: getData_def Let_def)
  have g': "getData J st key parseJson (Inr None) = (Inr JNull, send (RedisGet (getKey st key)) st)"
    using assms by (simp add: getData_def Let_def)
  have e: "getOrSet J st key handler ttl parseJson (Inr (Some [])) setReply =
           getOrSet J st key handler ttl parseJson (Inr None) setReply"
    by (simp add: getOrSet_def g g')
  have t: "\<exists>tr. trace (snd (getOrSet J st key handler ttl parseJson (Inr (Some [])) setReply)) =
                 trace st @ [RedisGet (getKey st key), HandlerCall] @ tr"
    using assms
    by (auto simp add: getOrSet_def g invoke_def getOrSet_catch_def setData_def Let_def
             split: sum.splits option.splits)
  from g g' e t show ?thesis by simp
qed

theorem empty_string_is_a_miss_witness:
  "isAvailable connected \<and>
   fst (getData sample connected ''k'' True (Inr (Some ''''))) = Inr JNull \<and>
   (\<exists>tr. trace (snd (getOrSet sample connected ''k'' counter None True (Inr (Some '''')) (Inr ()))) =
           trace connected @ [RedisGet (getKey connected ''k''), HandlerCall] @ tr)"
proof -
  note t = empty_string_is_a_miss
             [OF connected_available, where J = sample and key = "''k''" and parseJson = True
                and handler = counter and ttl = None and setReply = "Inr ()"]
  from t have a: "fst (getData sample connected ''k'' True (Inr (Some ''''))) = Inr JNull"
    by simp
  from t
  have b: "\<exists>tr. trace (snd (getOrSet sample connected ''k'' counter None True (Inr (Some '''')) (Inr ()))) =
             trace connected @ [RedisGet (getKey connected ''k''), HandlerCall] @ tr"
    by blast
  from a b connected_available show ?thesis
    by blast
qed

end
